theory Spec2Isabelle
  imports Main
begin

section \<open>The upload pipeline of data\_analyst.py\<close>

text \<open>
  The only function of the repository with logic of its own is
  \<^verbatim>\<open>preprocess_and_save(file)\<close>: it reads an uploaded CSV or Excel file into a
  pandas DataFrame, doubles the quote characters of the string columns, coerces columns
  to timestamps or numbers, writes the frame to a fresh temporary CSV file and returns
  the path, the column names and the frame.

  The function is modelled step by step. What pandas, the csv module and tempfile do
  inside is not part of the repository; their documented behaviour is written out here
  where a step depends on its structure (null handling, dtype dispatch, quoting, name
  generation) and is a parameter where it depends on number or date syntax.
\<close>

subsection \<open>Data: series, frames, the library parameters\<close>

text \<open>
  A pandas column (Series) carries a dtype and its cells. The model keeps the three
  kinds the pipeline distinguishes: \<open>object\<close> columns hold strings (the dtype of a
  column of strings in the pandas versions the code was written for, before 3.0), numeric
  columns (\<open>int64\<close>, \<open>float64\<close>) hold numbers, \<open>datetime64\<close> columns hold timestamps.
  The null marker of a cell (\<open>NaN\<close>, \<open>NaT\<close>) is \<open>None\<close>. Boolean columns, and object
  columns of mixed Python values (which only an Excel sheet can produce), are outside the
  model.
\<close>

datatype ('n, 't) series =
    Object "string option list"
  | Numeric "'n option list"
  | Datetime "'t option list"

text \<open>
  A DataFrame is the ordered list of its named columns. The readers hand out frames whose
  column names are distinct (a repeated header is renamed) and whose columns have the
  same number of cells; the statements below that need this say so.
\<close>

type_synonym ('n, 't) dataframe = "(string \<times> ('n, 't) series) list"

text \<open>
  The parts of the libraries that depend on number and date syntax, on the random name
  generator and on the file readers. \<open>to_num s\<close> is the numeric parse of a string:
  \<open>None\<close> when the string is not a number (\<^verbatim>\<open>pd.to_numeric\<close> raises),
  \<open>Some None\<close> when it denotes the floating-point NaN, \<open>Some (Some x)\<close> otherwise.
  \<open>to_ts cs s\<close> is the timestamp parse of the string \<open>s\<close> as a cell of a column with
  the cells \<open>cs\<close>, \<open>None\<close> when it does not parse; the column is an argument because
  pandas 2 infers one date format from the first string of a column and reads every cell
  with it.
\<close>

record ('n, 't) pandas =
  to_num :: "string \<Rightarrow> 'n option option"
  to_ts :: "string option list \<Rightarrow> string \<Rightarrow> 't option"
  num_to_ts :: "'n \<Rightarrow> 't option"
  str_num :: "'n \<Rightarrow> string"
  str_ts :: "'t \<Rightarrow> string"
  default_na :: "string list"
  csv_tokens :: "string \<Rightarrow> string + (string \<times> string list) list"
  excel_frame :: "string \<Rightarrow> string + ('n, 't) dataframe"
  tmpdir :: string
  rand_name :: "nat \<Rightarrow> string"

fun dtype_is_object :: "('n, 't) series \<Rightarrow> bool" where
  "dtype_is_object (Object cs) = True"
| "dtype_is_object (Numeric xs) = False"
| "dtype_is_object (Datetime ts) = False"

fun series_len :: "('n, 't) series \<Rightarrow> nat" where
  "series_len (Object cs) = length cs"
| "series_len (Numeric xs) = length xs"
| "series_len (Datetime ts) = length ts"

text \<open>\<open>isna\<close>: the positions of a series that hold the null marker.\<close>

fun isna :: "('n, 't) series \<Rightarrow> bool list" where
  "isna (Object cs) = map (\<lambda>c. c = None) cs"
| "isna (Numeric xs) = map (\<lambda>x. x = None) xs"
| "isna (Datetime ts) = map (\<lambda>t. t = None) ts"

definition columns :: "('n, 't) dataframe \<Rightarrow> string list" where
  "columns df = map fst df"

text \<open>
  \<^verbatim>\<open>df[col] = f(df[col])\<close> for a column that exists: the column keeps its position
  and its name.
\<close>

definition update_col :: "string \<Rightarrow> (('n, 't) series \<Rightarrow> ('n, 't) series) \<Rightarrow>
    ('n, 't) dataframe \<Rightarrow> ('n, 't) dataframe" where
  "update_col col f df = map (\<lambda>(n, s). if n = col then (n, f s) else (n, s)) df"

subsection \<open>Strings\<close>

definition dquote :: char where
  "dquote = CHR 0x22"

definition newline :: char where
  "newline = CHR 0x0A"

fun startswith :: "string \<Rightarrow> string \<Rightarrow> bool" where
  "startswith s [] = True"
| "startswith [] (p # ps) = False"
| "startswith (c # cs) (p # ps) = (c = p \<and> startswith cs ps)"

definition endswith :: "string \<Rightarrow> string \<Rightarrow> bool" where
  "endswith s suffix = startswith (rev s) (rev suffix)"

text \<open>\<^verbatim>\<open>sub in s\<close> for strings.\<close>

fun str_in :: "string \<Rightarrow> string \<Rightarrow> bool" where
  "str_in sub [] = (sub = [])"
| "str_in sub (c # cs) = (startswith (c # cs) sub \<or> str_in sub cs)"

text \<open>
  \<^verbatim>\<open>str.lower\<close> on the ASCII letters; column names are modelled as ASCII strings.
\<close>

definition char_lower :: "char \<Rightarrow> char" where
  "char_lower c =
     (case map_of (zip ''ABCDEFGHIJKLMNOPQRSTUVWXYZ'' ''abcdefghijklmnopqrstuvwxyz'') c of
        None \<Rightarrow> c
      | Some l \<Rightarrow> l)"

definition lower :: "string \<Rightarrow> string" where
  "lower s = map char_lower s"

subsection \<open>The sanitizing loop (source lines 28 to 30)\<close>

text \<open>
  \<^verbatim>\<open>
  for col in df.select_dtypes(include=['object']):
      df[col] = df[col].astype(str).replace({r'"': '""'}, regex=True)
  \<close>
  \<^verbatim>\<open>astype(str)\<close> applies Python's \<^verbatim>\<open>str\<close> to every cell, the null marker
  included: \<^verbatim>\<open>str(float('nan'))\<close> is the three-letter string \<^verbatim>\<open>nan\<close>, so the result has
  no null cell. The regex replacement then doubles every double quote of every string.
\<close>

fun astype_str :: "('n, 't) pandas \<Rightarrow> ('n, 't) series \<Rightarrow> ('n, 't) series" where
  "astype_str L (Object cs) =
     Object (map (\<lambda>c. case c of None \<Rightarrow> Some ''nan'' | Some s \<Rightarrow> Some s) cs)"
| "astype_str L (Numeric xs) =
     Object (map (\<lambda>x. case x of None \<Rightarrow> Some ''nan'' | Some n \<Rightarrow> Some (str_num L n)) xs)"
| "astype_str L (Datetime ts) =
     Object (map (\<lambda>t. case t of None \<Rightarrow> Some ''NaT'' | Some u \<Rightarrow> Some (str_ts L u)) ts)"

definition sanitize :: "string \<Rightarrow> string" where
  "sanitize s = concat (map (\<lambda>c. if c = dquote then [dquote, dquote] else [c]) s)"

fun replace_quotes :: "('n, 't) series \<Rightarrow> ('n, 't) series" where
  "replace_quotes (Object cs) = Object (map (map_option sanitize) cs)"
| "replace_quotes (Numeric xs) = Numeric xs"
| "replace_quotes (Datetime ts) = Datetime ts"

definition select_object :: "('n, 't) dataframe \<Rightarrow> string list" where
  "select_object df = map fst (filter (\<lambda>(n, s). dtype_is_object s) df)"

text \<open>The right-hand side of the assignment, and the loop over the object columns.\<close>

definition sanitize_series :: "('n, 't) pandas \<Rightarrow> ('n, 't) series \<Rightarrow> ('n, 't) series" where
  "sanitize_series L s = replace_quotes (astype_str L s)"

definition sanitize_columns :: "('n, 't) pandas \<Rightarrow> ('n, 't) dataframe \<Rightarrow> ('n, 't) dataframe" where
  "sanitize_columns L df =
     fold (\<lambda>col d. update_col col (sanitize_series L) d) (select_object df) df"

subsection \<open>The coercion loop (source lines 33 to 43)\<close>

text \<open>
  \<^verbatim>\<open>pd.to_datetime(s, errors='coerce')\<close>: every cell is parsed, a cell that does not
  parse becomes \<open>NaT\<close>, and the result always has the datetime dtype. A number is read
  as a point in time counted from the epoch.
\<close>

fun to_datetime :: "('n, 't) pandas \<Rightarrow> ('n, 't) series \<Rightarrow> ('n, 't) series" where
  "to_datetime L (Object cs) =
     Datetime (map (\<lambda>c. case c of None \<Rightarrow> None | Some s \<Rightarrow> to_ts L cs s) cs)"
| "to_datetime L (Numeric xs) =
     Datetime (map (\<lambda>x. case x of None \<Rightarrow> None | Some n \<Rightarrow> num_to_ts L n) xs)"
| "to_datetime L (Datetime ts) = Datetime ts"

text \<open>
  \<^verbatim>\<open>pd.to_numeric(s)\<close> with the default \<^verbatim>\<open>errors='raise'\<close>: the result is numeric when
  every cell that is not null parses, and the call raises \<^verbatim>\<open>ValueError\<close> (here \<open>None\<close>)
  as soon as one does not. A null cell stays null.
\<close>

definition numeric_cell :: "('n, 't) pandas \<Rightarrow> string option \<Rightarrow> 'n option option" where
  "numeric_cell L c = (case c of None \<Rightarrow> Some None | Some s \<Rightarrow> to_num L s)"

fun to_numeric :: "('n, 't) pandas \<Rightarrow> ('n, 't) series \<Rightarrow> ('n, 't) series option" where
  "to_numeric L (Object cs) =
     (if list_all (\<lambda>c. numeric_cell L c \<noteq> None) cs
      then Some (Numeric (map (\<lambda>c. the (numeric_cell L c)) cs))
      else None)"
| "to_numeric L (Numeric xs) = Some (Numeric xs)"
| "to_numeric L (Datetime ts) = Some (Datetime ts)"

text \<open>
  The body of the loop for one column:
  \<^verbatim>\<open>
  if 'date' in col.lower():
      df[col] = pd.to_datetime(df[col], errors='coerce')
  elif df[col].dtype == 'object':
      try:
          df[col] = pd.to_numeric(df[col])
      except (ValueError, TypeError):
          pass
  \<close>
\<close>

definition coerce_series :: "('n, 't) pandas \<Rightarrow> string \<Rightarrow> ('n, 't) series \<Rightarrow> ('n, 't) series" where
  "coerce_series L col s =
     (if str_in ''date'' (lower col) then to_datetime L s
      else if dtype_is_object s then
        (case to_numeric L s of Some s' \<Rightarrow> s' | None \<Rightarrow> s)
      else s)"

definition coerce_columns :: "('n, 't) pandas \<Rightarrow> ('n, 't) dataframe \<Rightarrow> ('n, 't) dataframe" where
  "coerce_columns L df = fold (\<lambda>col d. update_col col (coerce_series L col) d) (columns df) df"

text \<open>Both loops, in the order of the source.\<close>

definition normalize_table :: "('n, 't) pandas \<Rightarrow> ('n, 't) dataframe \<Rightarrow> ('n, 't) dataframe" where
  "normalize_table L df = coerce_columns L (sanitize_columns L df)"

subsection \<open>Reading the upload (source lines 16 to 21)\<close>

text \<open>
  \<^verbatim>\<open>pd.read_csv(file, encoding='utf-8', na_values=['NA', 'N/A', 'missing'])\<close>.
  How the bytes are cut into a header and columns of tokens is the parameter
  \<open>csv_tokens\<close> (\<open>Inl\<close> is the message of the exception the reader raises). From the
  tokens of a column the reader builds the series: a token that is one of
  \<open>na_values\<close>, or one of the reader's built-in null tokens (they stay in force, as
  \<^verbatim>\<open>keep_default_na\<close> is not switched off), becomes the null marker; when the column has
  rows and every remaining token is a number the series is numeric, so a column of
  nothing but null tokens is \<open>float64\<close>; otherwise it is an object series of strings.
  A column without rows is an object series.
\<close>

type_synonym exn = string

definition na_values :: "string list" where
  "na_values = [''NA'', ''N/A'', ''missing'']"

definition mask_na :: "('n, 't) pandas \<Rightarrow> string \<Rightarrow> string option" where
  "mask_na L tok = (if tok \<in> set (na_values @ default_na L) then None else Some tok)"

definition infer_series :: "('n, 't) pandas \<Rightarrow> string list \<Rightarrow> ('n, 't) series" where
  "infer_series L toks =
     (let cs = map (mask_na L) toks
      in if cs \<noteq> [] \<and> list_all (\<lambda>c. numeric_cell L c \<noteq> None) cs
         then Numeric (map (\<lambda>c. the (numeric_cell L c)) cs)
         else Object cs)"

definition read_csv :: "('n, 't) pandas \<Rightarrow> string \<Rightarrow> exn + ('n, 't) dataframe" where
  "read_csv L bytes =
     (case csv_tokens L bytes of
        Inl e \<Rightarrow> Inl e
      | Inr cols \<Rightarrow> Inr (map (\<lambda>(n, toks). (n, infer_series L toks)) cols))"

text \<open>
  \<^verbatim>\<open>pd.read_excel(file, na_values=[...])\<close>: a sheet has typed cells, so the frame it
  yields is a parameter as a whole.
\<close>

definition read_excel :: "('n, 't) pandas \<Rightarrow> string \<Rightarrow> exn + ('n, 't) dataframe" where
  "read_excel L bytes = excel_frame L bytes"

subsection \<open>Writing the artifact (source lines 46 to 49)\<close>

text \<open>
  \<^verbatim>\<open>df.to_csv(temp_path, index=False, quoting=csv.QUOTE_ALL)\<close>: a header row with the
  column names, then one row per record; a null cell is written as the empty string
  (\<^verbatim>\<open>na_rep=''\<close>). With \<^verbatim>\<open>QUOTE_ALL\<close> the csv writer wraps every field in double quotes
  and, \<^verbatim>\<open>doublequote\<close> being on by default, doubles each quote inside it; fields are
  joined by commas and a row ends with the line terminator (a newline on POSIX).
\<close>

fun series_text :: "('n, 't) pandas \<Rightarrow> ('n, 't) series \<Rightarrow> string list" where
  "series_text L (Object cs) = map (\<lambda>c. case c of None \<Rightarrow> [] | Some s \<Rightarrow> s) cs"
| "series_text L (Numeric xs) = map (\<lambda>x. case x of None \<Rightarrow> [] | Some n \<Rightarrow> str_num L n) xs"
| "series_text L (Datetime ts) = map (\<lambda>t. case t of None \<Rightarrow> [] | Some u \<Rightarrow> str_ts L u) ts"

definition records :: "('n, 't) pandas \<Rightarrow> ('n, 't) dataframe \<Rightarrow> string list list" where
  "records L df = transpose (map (\<lambda>(n, s). series_text L s) df)"

definition doublequote :: "string \<Rightarrow> string" where
  "doublequote s = concat (map (\<lambda>c. if c = dquote then [dquote, dquote] else [c]) s)"

definition quoted :: "string \<Rightarrow> string" where
  "quoted s = dquote # doublequote s @ [dquote]"

fun comma_join :: "string list \<Rightarrow> string" where
  "comma_join [] = []"
| "comma_join [f] = f"
| "comma_join (f # g # fs) = f @ CHR '','' # comma_join (g # fs)"

definition writerow :: "string list \<Rightarrow> string" where
  "writerow row = comma_join (map quoted row) @ [newline]"

definition to_csv :: "('n, 't) pandas \<Rightarrow> ('n, 't) dataframe \<Rightarrow> string" where
  "to_csv L df = concat (map writerow (columns df # records L df))"

text \<open>
  The state outside the function: the files of the machine (path to content), how many
  names the random name generator of \<^verbatim>\<open>tempfile\<close> has handed out, and the error
  messages shown by \<^verbatim>\<open>st.error\<close>.
\<close>

record world =
  files :: "string \<rightharpoonup> string"
  drawn :: nat
  ui_errors :: "string list"

definition st_error :: "string \<Rightarrow> world \<Rightarrow> world" where
  "st_error msg w = w\<lparr>ui_errors := ui_errors w @ [msg]\<rparr>"

text \<open>
  \<^verbatim>\<open>tempfile.NamedTemporaryFile(delete=False, suffix=".csv")\<close>. The library draws a
  random name, opens \<^verbatim>\<open>dir/tmp<name>.csv\<close> with \<^verbatim>\<open>O_CREAT | O_EXCL\<close>, and on
  \<^verbatim>\<open>FileExistsError\<close> draws again, at most \<^verbatim>\<open>TMP_MAX\<close> times (10000 where the
  platform names no bound of its own); then it raises. With \<^verbatim>\<open>delete=False\<close> the file
  stays when the \<^verbatim>\<open>with\<close> block is left. No statement below depends on the bound.
\<close>

definition TMP_MAX :: nat where
  "TMP_MAX = 10000"

definition candidate :: "('n, 't) pandas \<Rightarrow> nat \<Rightarrow> string" where
  "candidate L k = tmpdir L @ ''/tmp'' @ rand_name L k @ ''.csv''"

fun mkstemp_inner :: "('n, 't) pandas \<Rightarrow> nat \<Rightarrow> world \<Rightarrow> world \<times> string option" where
  "mkstemp_inner L 0 w = (w, None)"
| "mkstemp_inner L (Suc k) w =
     (let p = candidate L (drawn w); w' = w\<lparr>drawn := Suc (drawn w)\<rparr>
      in if files w p \<noteq> None then mkstemp_inner L k w'
         else (w'\<lparr>files := (files w)(p \<mapsto> [])\<rparr>, Some p))"

definition named_temporary_file :: "('n, 't) pandas \<Rightarrow> world \<Rightarrow> world \<times> (exn + string)" where
  "named_temporary_file L w =
     (case mkstemp_inner L TMP_MAX w of
        (w', None) \<Rightarrow> (w', Inl ''[Errno 17] No usable temporary file name found'')
      | (w', Some p) \<Rightarrow> (w', Inr p))"

definition stage :: "('n, 't) pandas \<Rightarrow> ('n, 't) dataframe \<Rightarrow> world \<Rightarrow> world \<times> (exn + string)" where
  "stage L df w =
     (case named_temporary_file L w of
        (w', Inl e) \<Rightarrow> (w', Inl e)
      | (w', Inr temp_path) \<Rightarrow>
          (w'\<lparr>files := (files w')(temp_path \<mapsto> to_csv L df)\<rparr>, Inr temp_path))"

subsection \<open>The function \<^verbatim>\<open>preprocess_and_save\<close>\<close>

text \<open>
  The uploaded file has a name and its bytes. The function returns the triple
  \<^verbatim>\<open>(None, None, None)\<close> (here \<open>None\<close>) after showing an error, or the path of the
  artifact, the column names and the frame. The \<^verbatim>\<open>try\<close> block catches every exception
  of the steps and shows its message.
\<close>

record upload =
  name :: string
  content :: string

type_synonym ('n, 't) staged = "string \<times> string list \<times> ('n, 't) dataframe"

definition process_frame :: "('n, 't) pandas \<Rightarrow> exn + ('n, 't) dataframe \<Rightarrow> world \<Rightarrow>
    world \<times> ('n, 't) staged option" where
  "process_frame L r w =
     (case r of
        Inl e \<Rightarrow> (st_error (''Error processing file: '' @ e) w, None)
      | Inr df0 \<Rightarrow>
          (let df = normalize_table L df0
           in case stage L df w of
                (w', Inl e) \<Rightarrow> (st_error (''Error processing file: '' @ e) w', None)
              | (w', Inr temp_path) \<Rightarrow> (w', Some (temp_path, columns df, df))))"

definition preprocess_and_save :: "('n, 't) pandas \<Rightarrow> upload \<Rightarrow> world \<Rightarrow>
    world \<times> ('n, 't) staged option" where
  "preprocess_and_save L file w =
     (if endswith (name file) ''.csv'' then process_frame L (read_csv L (content file)) w
      else if endswith (name file) ''.xlsx'' then process_frame L (read_excel L (content file)) w
      else (st_error ''Unsupported file format. Please upload a CSV or Excel file.'' w, None))"

text \<open>
  The page calls the function once for every upload it handles. A process lifetime is
  modelled as the list of the uploads handled, one call after the other, each starting
  in the state the call before left; nothing in the repository deletes a file.
\<close>

fun session :: "('n, 't) pandas \<Rightarrow> upload list \<Rightarrow> world \<Rightarrow>
    world \<times> ('n, 't) staged option list" where
  "session L [] w = (w, [])"
| "session L (file # rest) w =
     (case preprocess_and_save L file w of
        (w1, r) \<Rightarrow> (case session L rest w1 of (w2, rs) \<Rightarrow> (w2, r # rs)))"

text \<open>The artifacts a list of results holds, in the order of the calls.\<close>

fun artifacts :: "('n, 't) staged option list \<Rightarrow> ('n, 't) staged list" where
  "artifacts [] = []"
| "artifacts (None # rs) = artifacts rs"
| "artifacts (Some a # rs) = a # artifacts rs"

subsection \<open>A standard reader of delimited text\<close>

text \<open>
  The claims about the artifact speak of reading it back with a standard reader of
  delimited text. This is the reader of the usual dialect (comma, double quote, doubled
  quote inside a quoted field, newline between records) as a state machine over the
  characters; it is not part of the repository. The reader holds the field and the
  record it is building and the records already finished.
\<close>

datatype rstate = StartField | InField | InQuoted | QuoteInQuoted

fun csv_read :: "rstate \<Rightarrow> string \<Rightarrow> string list \<Rightarrow> string list list \<Rightarrow> string \<Rightarrow>
    string list list" where
  "csv_read st fld row rows [] =
     (if st = StartField \<and> row = [] then rows else rows @ [row @ [fld]])"
| "csv_read StartField fld row rows (c # cs) =
     (if c = dquote then csv_read InQuoted [] row rows cs
      else if c = CHR '','' then csv_read StartField [] (row @ [[]]) rows cs
      else if c = newline then
        csv_read StartField [] [] (rows @ [if row = [] then [] else row @ [[]]]) cs
      else csv_read InField [c] row rows cs)"
| "csv_read InField fld row rows (c # cs) =
     (if c = CHR '','' then csv_read StartField [] (row @ [fld]) rows cs
      else if c = newline then csv_read StartField [] [] (rows @ [row @ [fld]]) cs
      else csv_read InField (fld @ [c]) row rows cs)"
| "csv_read InQuoted fld row rows (c # cs) =
     (if c = dquote then csv_read QuoteInQuoted fld row rows cs
      else csv_read InQuoted (fld @ [c]) row rows cs)"
| "csv_read QuoteInQuoted fld row rows (c # cs) =
     (if c = dquote then csv_read InQuoted (fld @ [dquote]) row rows cs
      else if c = CHR '','' then csv_read StartField [] (row @ [fld]) rows cs
      else if c = newline then csv_read StartField [] [] (rows @ [row @ [fld]]) cs
      else csv_read InField (fld @ [c]) row rows cs)"

definition csv_reader :: "string \<Rightarrow> string list list" where
  "csv_reader text = csv_read StartField [] [] [] text"

subsection \<open>An instance of the library parameters\<close>

text \<open>
  To run the model on a concrete upload the parameters need values. This instance is a
  small stand-in for the libraries: numbers are the decimal naturals (and \<^verbatim>\<open>nan\<close> in any
  letter case reads as NaN), a timestamp is a date written \<^verbatim>\<open>YYYY-MM-DD\<close> and kept as
  the number \<open>YYYYMMDD\<close>, the bytes of a CSV file are cut by the reader above, no bytes
  are a workbook, and the name generator counts.
\<close>

definition is_digit :: "char \<Rightarrow> bool" where
  "is_digit c = (c \<in> set ''0123456789'')"

definition digit_value :: "char \<Rightarrow> nat" where
  "digit_value c =
     (case map_of (zip ''0123456789'' [0, 1, 2, 3, 4, 5, 6, 7, 8, 9]) c of
        None \<Rightarrow> 0
      | Some d \<Rightarrow> d)"

fun nat_of_digits :: "nat \<Rightarrow> string \<Rightarrow> nat" where
  "nat_of_digits acc [] = acc"
| "nat_of_digits acc (c # cs) = nat_of_digits (10 * acc + digit_value c) cs"

function str_nat :: "nat \<Rightarrow> string" where
  "str_nat n =
     (if n < 10 then [''0123456789'' ! n]
      else str_nat (n div 10) @ [''0123456789'' ! (n mod 10)])"
  by pat_completeness auto
termination
  by (relation "measure id") auto

declare str_nat.simps [simp del]

definition demo_num :: "string \<Rightarrow> nat option option" where
  "demo_num s =
     (if lower s = ''nan'' then Some None
      else if s \<noteq> [] \<and> list_all is_digit s then Some (Some (nat_of_digits 0 s))
      else None)"

definition demo_ts :: "string \<Rightarrow> nat option" where
  "demo_ts s =
     (let ds = take 4 s @ take 2 (drop 5 s) @ drop 8 s
      in if length s = 10 \<and> take 1 (drop 4 s) = ''-'' \<and> take 1 (drop 7 s) = ''-''
            \<and> list_all is_digit ds
         then Some (nat_of_digits 0 ds) else None)"

definition field_at :: "nat \<Rightarrow> string list \<Rightarrow> string" where
  "field_at i row = (case drop i row of [] \<Rightarrow> [] | f # _ \<Rightarrow> f)"

definition demo_tokens :: "string \<Rightarrow> exn + (string \<times> string list) list" where
  "demo_tokens bytes =
     (case csv_reader bytes of
        [] \<Rightarrow> Inl ''No columns to parse from file''
      | header # rows \<Rightarrow>
          Inr (map (\<lambda>i. (field_at i header, map (field_at i) rows)) [0..<length header]))"

definition demo :: "(nat, nat) pandas" where
  "demo = \<lparr> to_num = demo_num, to_ts = (\<lambda>cs. demo_ts), num_to_ts = Some,
            str_num = str_nat, str_ts = str_nat,
            default_na = [[], ''#N/A'', ''#N/A N/A'', ''#NA'', ''-1.#IND'', ''-1.#QNAN'',
              ''-NaN'', ''-nan'', ''1.#IND'', ''1.#QNAN'', ''<NA>'', ''N/A'', ''NA'', ''NULL'',
              ''NaN'', ''None'', ''n/a'', ''nan'', ''null''],
            csv_tokens = demo_tokens,
            excel_frame = (\<lambda>bytes. Inl ''File is not a zip file''),
            tmpdir = ''/tmp'', rand_name = str_nat \<rparr>"

definition world0 :: world where
  "world0 = \<lparr> files = Map.empty, drawn = 0, ui_errors = [] \<rparr>"

section \<open>Properties\<close>

lemmas string_defs = lower_def char_lower_def endswith_def dquote_def newline_def

lemmas frame_defs = columns_def update_col_def select_object_def sanitize_columns_def
  sanitize_series_def sanitize_def coerce_columns_def coerce_series_def normalize_table_def
  numeric_cell_def

lemmas demo_defs = demo_def demo_num_def demo_ts_def is_digit_def digit_value_def
  demo_tokens_def field_at_def csv_reader_def

lemmas pipeline_defs = preprocess_and_save_def process_frame_def read_csv_def infer_series_def
  mask_na_def na_values_def stage_def named_temporary_file_def TMP_MAX_def candidate_def
  to_csv_def records_def writerow_def quoted_def doublequote_def st_error_def world0_def Let_def

subsection \<open>The two loops, column by column\<close>

text \<open>
  A loop of assignments \<^verbatim>\<open>df[col] = f(col, df[col])\<close> over distinct column names
  changes exactly the named columns, each once.
\<close>

lemma columns_update_col: "columns (update_col col f df) = columns df"
  by (induction df) (auto simp: columns_def update_col_def)

lemma fold_update_col:
  "distinct ns \<Longrightarrow>
   fold (\<lambda>col d. update_col col (f col) d) ns df =
     map (\<lambda>(n, s). (n, if n \<in> set ns then f n s else s)) df"
proof (induction ns arbitrary: df)
  case Nil
  then show ?case by simp
next
  case (Cons c ns)
  have "fold (\<lambda>col d. update_col col (f col) d) (c # ns) df =
        fold (\<lambda>col d. update_col col (f col) d) ns (update_col c (f c) df)"
    by simp
  also have "\<dots> = map (\<lambda>(n, s). (n, if n \<in> set ns then f n s else s)) (update_col c (f c) df)"
    using Cons by simp
  also have "\<dots> = map (\<lambda>(n, s). (n, if n \<in> set (c # ns) then f n s else s)) df"
    using Cons.prems by (auto simp: update_col_def)
  finally show ?case .
qed

lemma columns_fold_update:
  "columns (fold (\<lambda>col d. update_col col (f col) d) ns df) = columns df"
  by (induction ns arbitrary: df) (simp_all add: columns_update_col)

lemma columns_sanitize_columns: "columns (sanitize_columns L df) = columns df"
  by (simp add: sanitize_columns_def columns_fold_update)

lemma columns_coerce_columns: "columns (coerce_columns L df) = columns df"
  by (simp add: coerce_columns_def columns_fold_update)

lemma columns_normalize_table: "columns (normalize_table L df) = columns df"
  by (simp add: normalize_table_def columns_coerce_columns columns_sanitize_columns)

lemma coerce_columns_map:
  assumes "distinct (columns df)"
  shows "coerce_columns L df = map (\<lambda>(n, s). (n, coerce_series L n s)) df"
proof -
  have "coerce_columns L df =
        map (\<lambda>(n, s). (n, if n \<in> set (columns df) then coerce_series L n s else s)) df"
    unfolding coerce_columns_def using assms by (rule fold_update_col)
  also have "\<dots> = map (\<lambda>(n, s). (n, coerce_series L n s)) df"
    by (rule map_cong) (auto simp: columns_def rev_image_eqI)
  finally show ?thesis .
qed

lemma distinct_select_object: "distinct (columns df) \<Longrightarrow> distinct (select_object df)"
  by (simp add: columns_def select_object_def distinct_map_filter)

lemma in_select_object:
  assumes "distinct (columns df)" and "(n, s) \<in> set df"
  shows "n \<in> set (select_object df) \<longleftrightarrow> dtype_is_object s"
proof
  assume "n \<in> set (select_object df)"
  then obtain s' where s': "(n, s') \<in> set df" "dtype_is_object s'"
    by (auto simp: select_object_def)
  from assms(1) have "distinct (map fst df)" by (simp add: columns_def)
  with s'(1) assms(2) have "s' = s" by (meson eq_key_imp_eq_value)
  with s'(2) show "dtype_is_object s" by simp
next
  assume "dtype_is_object s"
  with assms(2) show "n \<in> set (select_object df)"
    by (force simp: select_object_def)
qed

lemma sanitize_columns_map:
  assumes "distinct (columns df)"
  shows "sanitize_columns L df =
         map (\<lambda>(n, s). (n, if dtype_is_object s then sanitize_series L s else s)) df"
proof -
  have "sanitize_columns L df =
        map (\<lambda>(n, s). (n, if n \<in> set (select_object df) then sanitize_series L s else s)) df"
    unfolding sanitize_columns_def
    using distinct_select_object[OF assms] by (rule fold_update_col)
  also have "\<dots> = map (\<lambda>(n, s). (n, if dtype_is_object s then sanitize_series L s else s)) df"
    by (rule map_cong) (auto simp: in_select_object[OF assms])
  finally show ?thesis .
qed

lemma normalize_table_map:
  assumes "distinct (columns df)"
  shows "normalize_table L df =
         map (\<lambda>(n, s). (n, coerce_series L n
                 (if dtype_is_object s then sanitize_series L s else s))) df"
proof -
  have d: "distinct (columns (sanitize_columns L df))"
    using assms by (simp add: columns_sanitize_columns)
  have "normalize_table L df = map (\<lambda>(n, s). (n, coerce_series L n s)) (sanitize_columns L df)"
    unfolding normalize_table_def by (rule coerce_columns_map[OF d])
  also have "\<dots> = map (\<lambda>(n, s). (n, coerce_series L n s))
      (map (\<lambda>(n, s). (n, if dtype_is_object s then sanitize_series L s else s)) df)"
    by (simp only: sanitize_columns_map[OF assms])
  finally show ?thesis
    by (simp add: case_prod_unfold comp_def)
qed

lemma coerce_columns_nth:
  assumes "distinct (columns df)" and "i < length df" and "df ! i = (col, s)"
  shows "coerce_columns L df ! i = (col, coerce_series L col s)"
  using assms by (simp add: coerce_columns_map)

lemma sanitize_columns_nth:
  assumes "distinct (columns df)" and "i < length df" and "df ! i = (col, s)"
  shows "sanitize_columns L df ! i = (col, if dtype_is_object s then sanitize_series L s else s)"
  using assms by (simp add: sanitize_columns_map)

lemma normalize_table_nth:
  assumes "distinct (columns df)" and "i < length df" and "df ! i = (col, s)"
  shows "normalize_table L df ! i =
         (col, coerce_series L col (if dtype_is_object s then sanitize_series L s else s))"
  using assms by (simp add: normalize_table_map)

lemma length_to_datetime: "\<exists>ts. to_datetime L s = Datetime ts \<and> length ts = series_len s"
  by (cases s) simp_all

subsection \<open>Columns named like a date\<close>

text \<open>
  Claim C2. In a frame with distinct column names, the coercion loop turns every column
  whose lower-cased name contains \<^verbatim>\<open>date\<close> into a timestamp column of the same length.
  For a column of strings each cell is the timestamp parse of its string, and a cell
  that does not parse (or was null) is null. Nothing in the result depends on how many
  cells parse, so the column is a timestamp column also when all of them are null. The
  same column of the normalized table, where the loop has run on the sanitized cells, is
  a timestamp column of that length as well.
\<close>

theorem date_column_is_timestamp:
  assumes "distinct (columns df)" and "i < length df" and "df ! i = (col, s)"
    and "str_in ''date'' (lower col)"
  shows "(\<exists>ts. coerce_columns L df ! i = (col, Datetime ts) \<and> length ts = series_len s \<and>
           (\<forall>cs. s = Object cs \<longrightarrow>
              ts = map (\<lambda>c. case c of None \<Rightarrow> None | Some v \<Rightarrow> to_ts L cs v) cs))
       \<and> (\<exists>ts. normalize_table L df ! i = (col, Datetime ts) \<and> length ts = series_len s)"
proof -
  have "coerce_columns L df ! i = (col, to_datetime L s)"
    using assms by (simp add: coerce_columns_nth coerce_series_def)
  moreover obtain ts where "to_datetime L s = Datetime ts" "length ts = series_len s"
    using length_to_datetime by blast
  ultimately have loop: "\<exists>ts. coerce_columns L df ! i = (col, Datetime ts)
      \<and> length ts = series_len s \<and>
           (\<forall>cs. s = Object cs \<longrightarrow>
              ts = map (\<lambda>c. case c of None \<Rightarrow> None | Some v \<Rightarrow> to_ts L cs v) cs)"
    by auto
  let ?s = "if dtype_is_object s then sanitize_series L s else s"
  have "normalize_table L df ! i = (col, to_datetime L ?s)"
    using assms by (simp add: normalize_table_nth coerce_series_def)
  moreover obtain ts' where "to_datetime L ?s = Datetime ts'" "length ts' = series_len ?s"
    using length_to_datetime by blast
  moreover have "series_len ?s = series_len s"
    by (cases s) (simp_all add: sanitize_series_def)
  ultimately have "\<exists>ts. normalize_table L df ! i = (col, Datetime ts) \<and> length ts = series_len s"
    by auto
  with loop show ?thesis by blast
qed

theorem date_column_is_timestamp_witness:
  "coerce_columns demo
     [(''id'', Numeric [Some 1, Some 2, Some 3]),
      (''Order_Date'', Object [Some ''2020-01-02'', Some ''soon'', None])] ! 1 =
   (''Order_Date'', Datetime [Some 20200102, None, None])"
  using date_column_is_timestamp [of
      "[(''id'', Numeric [Some 1, Some 2, Some 3]),
        (''Order_Date'', Object [Some ''2020-01-02'', Some ''soon'', None])]"
      1 "''Order_Date''" "Object [Some ''2020-01-02'', Some ''soon'', None]" demo]
  by (simp add: string_defs columns_def demo_defs)

subsection \<open>Unsupported file names\<close>

text \<open>
  Claim C8. When the name of the upload ends neither in \<^verbatim>\<open>.csv\<close> nor in \<^verbatim>\<open>.xlsx\<close>, the
  function shows the unsupported-format message and returns no artifact; the files of the
  machine are what they were, and no temporary name was drawn.
\<close>

theorem unsupported_extension_rejected:
  assumes "\<not> endswith (name file) ''.csv''" and "\<not> endswith (name file) ''.xlsx''"
  shows "preprocess_and_save L file w =
           (w\<lparr>ui_errors := ui_errors w @
               [''Unsupported file format. Please upload a CSV or Excel file.'']\<rparr>, None)
         \<and> files (fst (preprocess_and_save L file w)) = files w
         \<and> drawn (fst (preprocess_and_save L file w)) = drawn w"
  using assms by (simp add: preprocess_and_save_def st_error_def)

theorem unsupported_extension_rejected_witness:
  "preprocess_and_save demo \<lparr>name = ''data.txt'', content = ''a,b''\<rparr> world0 =
     (world0\<lparr>ui_errors := [''Unsupported file format. Please upload a CSV or Excel file.'']\<rparr>,
      None)"
  using unsupported_extension_rejected
    [of "\<lparr>name = ''data.txt'', content = ''a,b''\<rparr>" demo world0]
  by (simp add: string_defs world0_def)

subsection \<open>Columns of strings with other names\<close>

lemma to_numeric_Object_Some:
  assumes "\<forall>v. Some v \<in> set cs \<longrightarrow> to_num L v \<noteq> None"
  shows "to_numeric L (Object cs) =
         Some (Numeric (map (\<lambda>c. case c of None \<Rightarrow> None | Some v \<Rightarrow> the (to_num L v)) cs))"
proof -
  have "list_all (\<lambda>c. numeric_cell L c \<noteq> None) cs"
    using assms by (auto simp: list_all_iff numeric_cell_def split: option.splits)
  moreover have "map (\<lambda>c. the (numeric_cell L c)) cs =
      map (\<lambda>c. case c of None \<Rightarrow> None | Some v \<Rightarrow> the (to_num L v)) cs"
    by (rule map_cong) (auto simp: numeric_cell_def split: option.splits)
  ultimately show ?thesis by simp
qed

lemma to_numeric_Object_None:
  assumes "Some v \<in> set cs" and "to_num L v = None"
  shows "to_numeric L (Object cs) = None"
proof -
  have "\<not> list_all (\<lambda>c. numeric_cell L c \<noteq> None) cs"
    using assms by (auto simp: list_all_iff numeric_cell_def intro!: bexI[of _ "Some v"])
  then show ?thesis by simp
qed

text \<open>
  Claim C3. In a frame with distinct column names, take a column of strings whose
  lower-cased name does not contain \<^verbatim>\<open>date\<close>. When every string of the column parses
  as a number, the coercion loop makes the column numeric, each cell the numeric parse of
  its string and each null cell null. When some string does not parse, the column stays
  what it was: an object column with the same strings.
\<close>

theorem string_column_numeric_or_text:
  assumes "distinct (columns df)" and "i < length df" and "df ! i = (col, Object cs)"
    and "\<not> str_in ''date'' (lower col)"
  shows "((\<forall>v. Some v \<in> set cs \<longrightarrow> to_num L v \<noteq> None) \<longrightarrow>
            coerce_columns L df ! i =
              (col, Numeric (map (\<lambda>c. case c of None \<Rightarrow> None | Some v \<Rightarrow> the (to_num L v)) cs)))
       \<and> ((\<exists>v. Some v \<in> set cs \<and> to_num L v = None) \<longrightarrow>
            coerce_columns L df ! i = (col, Object cs))"
proof -
  have nth: "coerce_columns L df ! i =
      (col, case to_numeric L (Object cs) of Some s' \<Rightarrow> s' | None \<Rightarrow> Object cs)"
    using assms by (simp add: coerce_columns_nth coerce_series_def)
  show ?thesis
  proof (intro conjI impI)
    assume "\<forall>v. Some v \<in> set cs \<longrightarrow> to_num L v \<noteq> None"
    then show "coerce_columns L df ! i =
        (col, Numeric (map (\<lambda>c. case c of None \<Rightarrow> None | Some v \<Rightarrow> the (to_num L v)) cs))"
      using nth by (simp add: to_numeric_Object_Some del: to_numeric.simps)
  next
    assume "\<exists>v. Some v \<in> set cs \<and> to_num L v = None"
    then obtain v where "Some v \<in> set cs" "to_num L v = None" by blast
    then show "coerce_columns L df ! i = (col, Object cs)"
      using nth by (simp add: to_numeric_Object_None del: to_numeric.simps)
  qed
qed

theorem string_column_numeric_or_text_witness:
  "coerce_columns demo
     [(''amount'', Object [Some ''12'', None, Some ''7'']),
      (''city'', Object [Some ''Oslo'', Some ''3'', None])] ! 0 =
     (''amount'', Numeric [Some 12, None, Some 7])
   \<and> coerce_columns demo
     [(''amount'', Object [Some ''12'', None, Some ''7'']),
      (''city'', Object [Some ''Oslo'', Some ''3'', None])] ! 1 =
     (''city'', Object [Some ''Oslo'', Some ''3'', None])"
proof -
  let ?df = "[(''amount'', Object [Some ''12'', None, Some ''7'']),
              (''city'', Object [Some ''Oslo'', Some ''3'', None])] :: (nat, nat) dataframe"
  have d: "distinct (columns ?df)"
    by (simp add: columns_def)
  have amount: "\<not> str_in ''date'' (lower ''amount'')" and city: "\<not> str_in ''date'' (lower ''city'')"
    by (simp_all add: string_defs)
  have all: "\<forall>v. Some v \<in> set [Some ''12'', None, Some ''7''] \<longrightarrow> to_num demo v \<noteq> None"
    by (auto simp: demo_defs string_defs)
  have one: "\<exists>v. Some v \<in> set [Some ''Oslo'', Some ''3'', None] \<and> to_num demo v = None"
    by (rule exI[of _ "''Oslo''"]) (simp add: demo_defs string_defs)
  have "coerce_columns demo ?df ! 0 =
      (''amount'', Numeric (map (\<lambda>c. case c of None \<Rightarrow> None | Some v \<Rightarrow> the (to_num demo v))
         [Some ''12'', None, Some ''7'']))"
    using string_column_numeric_or_text [OF d _ _ amount, of 0 "[Some ''12'', None, Some ''7'']" demo]
      all by simp
  moreover have "coerce_columns demo ?df ! 1 = (''city'', Object [Some ''Oslo'', Some ''3'', None])"
    using string_column_numeric_or_text [OF d _ _ city, of 1 "[Some ''Oslo'', Some ''3'', None]" demo]
      one by simp
  ultimately show ?thesis
    by (simp add: demo_defs string_defs)
qed

subsection \<open>Columns without rows\<close>

lemma sanitize_series_empty: "sanitize_series L (Object []) = Object []"
  by (simp add: sanitize_series_def)

lemma coerce_series_empty:
  "\<not> str_in ''date'' (lower col) \<Longrightarrow> coerce_series L col (Object []) = Numeric []"
  by (simp add: coerce_series_def)

lemma coerce_series_Numeric:
  "\<not> str_in ''date'' (lower col) \<Longrightarrow> coerce_series L col (Numeric xs) = Numeric xs"
  by (simp add: coerce_series_def)

text \<open>
  Claim C10, as the code has it. A column without rows whose lower-cased name does not
  contain \<^verbatim>\<open>date\<close> is an object column when it is read; \<^verbatim>\<open>pd.to_numeric\<close> has no
  string to reject, so the coercion loop, and the whole normalization, make it a numeric
  column. The claim says text.
\<close>

theorem empty_column_is_numeric:
  assumes "distinct (columns df)" and "i < length df" and "df ! i = (col, Object [])"
    and "\<not> str_in ''date'' (lower col)"
  shows "coerce_columns L df ! i = (col, Numeric []) \<and> normalize_table L df ! i = (col, Numeric [])"
  using assms
  by (simp add: coerce_columns_nth normalize_table_nth sanitize_series_empty coerce_series_empty)

theorem empty_column_is_numeric_witness:
  "coerce_columns demo [(''id'', Object []), (''amount'', Object [])] ! 1 = (''amount'', Numeric [])
   \<and> normalize_table demo [(''id'', Object []), (''amount'', Object [])] ! 1 = (''amount'', Numeric [])"
  using empty_column_is_numeric [of "[(''id'', Object []), (''amount'', Object [])]" 1 "''amount''" demo]
  by (simp add: columns_def string_defs)

text \<open>
  The claim C10 itself fails on the upload that holds only the header \<^verbatim>\<open>amount\<close>: the
  reader yields an object column without rows and normalization returns a numeric one.
\<close>

theorem empty_column_text_counterexample:
  "read_csv demo (''amount'' @ [newline]) = Inr [(''amount'', Object [])]
   \<and> normalize_table demo [(''amount'', Object [])] = [(''amount'', Numeric [])]
   \<and> \<not> dtype_is_object (snd (normalize_table demo [(''amount'', Object [])] ! 0))"
  by (simp add: read_csv_def infer_series_def frame_defs string_defs demo_defs)

subsection \<open>The order of the two loops\<close>

text \<open>
  Claim C1, as the code has it. The sanitizing loop runs first and touches exactly the
  columns that are object columns when the frame is read, whatever their names; the
  coercion loop then works on the sanitized cells. So a column of strings that ends as a
  timestamp or numeric column has passed through the sanitizer, and only the columns the
  reader already typed numeric or timestamp never do. Stated for a frame with distinct
  column names, column by column.
\<close>

theorem sanitizer_runs_before_coercion:
  assumes "distinct (columns df)" and "i < length df" and "df ! i = (col, s)"
  shows "sanitize_columns L df ! i = (col, if dtype_is_object s then sanitize_series L s else s)
       \<and> normalize_table L df ! i =
           (col, coerce_series L col (if dtype_is_object s then sanitize_series L s else s))"
  using assms by (simp add: sanitize_columns_nth normalize_table_nth)

theorem sanitizer_runs_before_coercion_witness:
  "sanitize_columns demo
     [(''id'', Numeric [Some 7]), (''order_date'', Object [Some ''2020-01-02''])] ! 1 =
     (''order_date'', Object [Some ''2020-01-02''])
   \<and> normalize_table demo
     [(''id'', Numeric [Some 7]), (''order_date'', Object [Some ''2020-01-02''])] ! 1 =
     (''order_date'', Datetime [Some 20200102])"
  using sanitizer_runs_before_coercion [of
      "[(''id'', Numeric [Some 7]), (''order_date'', Object [Some ''2020-01-02''])]"
      1 "''order_date''" "Object [Some ''2020-01-02'']" demo]
  by (simp add: columns_def sanitize_series_def sanitize_def coerce_series_def string_defs demo_defs)

text \<open>
  The claim C1 itself fails on a column of strings named \<^verbatim>\<open>order_date\<close>: the sanitizing
  loop doubles the quotes of its cell, and the column is coerced to a timestamp column
  afterwards.
\<close>

theorem sanitizer_only_text_counterexample:
  "sanitize_columns demo
     [(''order_date'', Object [Some (''due '' @ [dquote] @ ''soon'' @ [dquote])])] =
     [(''order_date'', Object [Some (''due '' @ [dquote, dquote] @ ''soon'' @ [dquote, dquote])])]
   \<and> normalize_table demo
     [(''order_date'', Object [Some (''due '' @ [dquote] @ ''soon'' @ [dquote])])] =
     [(''order_date'', Datetime [None])]"
  by (simp add: frame_defs string_defs demo_defs)

subsection \<open>Columns of null tokens\<close>

lemma mask_na_sentinel: "tok \<in> set na_values \<Longrightarrow> mask_na L tok = None"
  by (simp add: mask_na_def)

lemma infer_series_all_na:
  assumes "set toks \<subseteq> set na_values"
  shows "infer_series L toks =
         (if toks = [] then Object [] else Numeric (replicate (length toks) None))"
proof -
  have m: "map (mask_na L) toks = replicate (length toks) None"
    using assms by (induction toks) (auto simp: mask_na_sentinel)
  show ?thesis
    by (simp add: infer_series_def m numeric_cell_def list_all_iff)
qed

text \<open>
  Claim C4, as the code has it. When every token of a CSV column is one of \<^verbatim>\<open>NA\<close>,
  \<^verbatim>\<open>N/A\<close>, \<^verbatim>\<open>missing\<close> and the lower-cased name does not contain \<^verbatim>\<open>date\<close>, reading
  succeeds and normalization yields a column of as many null cells, of numeric dtype: the
  reader types a column of nothing but nulls \<open>float64\<close>, and neither loop touches a
  numeric column with such a name. The claim says text.
\<close>

theorem sentinel_column_is_null_numeric:
  assumes "csv_tokens L bytes = Inr cols" and "distinct (map fst cols)"
    and "i < length cols" and "cols ! i = (col, toks)"
    and "set toks \<subseteq> set na_values" and "\<not> str_in ''date'' (lower col)"
  shows "\<exists>df. read_csv L bytes = Inr df
           \<and> normalize_table L df ! i = (col, Numeric (replicate (length toks) None))"
proof -
  let ?df = "map (\<lambda>(n, toks). (n, infer_series L toks)) cols"
  have r: "read_csv L bytes = Inr ?df"
    using assms(1) by (simp add: read_csv_def)
  have d: "distinct (columns ?df)"
    using assms(2) by (simp add: columns_def comp_def case_prod_unfold)
  have n: "?df ! i = (col, infer_series L toks)"
    using assms(3,4) by simp
  have "normalize_table L ?df ! i = (col, Numeric (replicate (length toks) None))"
    using assms(3,5,6)
    by (simp add: normalize_table_nth[OF d _ n] infer_series_all_na sanitize_series_empty
        coerce_series_empty coerce_series_Numeric)
  with r show ?thesis by blast
qed

theorem sentinel_column_is_null_numeric_witness:
  "read_csv demo (''id,status'' @ [newline] @ ''1,NA'' @ [newline] @ ''2,N/A'' @ [newline]
       @ ''3,missing'' @ [newline]) =
     Inr [(''id'', Numeric [Some 1, Some 2, Some 3]), (''status'', Numeric [None, None, None])]
   \<and> normalize_table demo
       [(''id'', Numeric [Some 1, Some 2, Some 3]), (''status'', Numeric [None, None, None])] ! 1 =
     (''status'', Numeric [None, None, None])"
proof -
  let ?bytes = "''id,status'' @ [newline] @ ''1,NA'' @ [newline] @ ''2,N/A'' @ [newline]
       @ ''3,missing'' @ [newline]"
  have t: "csv_tokens demo ?bytes =
      Inr [(''id'', [''1'', ''2'', ''3'']), (''status'', [''NA'', ''N/A'', ''missing''])]"
    by (simp add: demo_defs string_defs)
  have r: "read_csv demo ?bytes =
      Inr [(''id'', Numeric [Some 1, Some 2, Some 3]), (''status'', Numeric [None, None, None])]"
    unfolding read_csv_def t
    by (simp add: infer_series_def mask_na_def na_values_def numeric_cell_def demo_defs
        string_defs)
  from sentinel_column_is_null_numeric [OF t, of 1 "''status''" "[''NA'', ''N/A'', ''missing'']"]
  have "\<exists>df. read_csv demo ?bytes = Inr df
          \<and> normalize_table demo df ! 1 = (''status'', Numeric [None, None, None])"
    by (simp add: na_values_def string_defs numeral_3_eq_3)
  with r show ?thesis
    by simp
qed

text \<open>
  The claim C4 itself fails on the upload with the one column \<^verbatim>\<open>status\<close> holding the
  three sentinel strings: the normalized column is all null, and numeric.
\<close>

theorem sentinel_column_text_counterexample:
  "read_csv demo (''status'' @ [newline] @ ''NA'' @ [newline] @ ''N/A'' @ [newline]
       @ ''missing'' @ [newline]) = Inr [(''status'', Numeric [None, None, None])]
   \<and> normalize_table demo [(''status'', Numeric [None, None, None])] =
       [(''status'', Numeric [None, None, None])]
   \<and> \<not> dtype_is_object (snd (normalize_table demo [(''status'', Numeric [None, None, None])] ! 0))"
  by (simp add: read_csv_def infer_series_def mask_na_def na_values_def frame_defs string_defs
      demo_defs)

subsection \<open>Temporary files\<close>

lemma mkstemp_inner_unfold:
  "mkstemp_inner L k w =
     (if k = 0 then (w, None)
      else let p = candidate L (drawn w); w' = w\<lparr>drawn := Suc (drawn w)\<rparr>
           in if files w p \<noteq> None then mkstemp_inner L (k - 1) w'
              else (w'\<lparr>files := (files w)(p \<mapsto> [])\<rparr>, Some p))"
  by (cases k) (simp_all add: Let_def)

lemma mkstemp_inner_Some:
  "mkstemp_inner L k w = (w', Some p) \<Longrightarrow>
     files w p = None \<and> files w' = (files w)(p \<mapsto> []) \<and> ui_errors w' = ui_errors w"
proof (induction k arbitrary: w)
  case 0
  then show ?case by simp
next
  case (Suc k)
  show ?case
  proof (cases "files w (candidate L (drawn w)) = None")
    case True
    with Suc.prems show ?thesis by (auto simp: Let_def)
  next
    case False
    with Suc.prems have "mkstemp_inner L k (w\<lparr>drawn := Suc (drawn w)\<rparr>) = (w', Some p)"
      by (simp add: Let_def)
    from Suc.IH[OF this] show ?thesis by simp
  qed
qed

lemma stage_Inr:
  assumes "stage L df w = (w', Inr p)"
  shows "files w p = None \<and> files w' = (files w)(p \<mapsto> to_csv L df) \<and> ui_errors w' = ui_errors w"
proof -
  from assms obtain w1 where m: "mkstemp_inner L TMP_MAX w = (w1, Some p)"
    and w': "w' = w1\<lparr>files := (files w1)(p \<mapsto> to_csv L df)\<rparr>"
    by (auto simp: stage_def named_temporary_file_def split: prod.splits option.splits sum.splits)
  from mkstemp_inner_Some[OF m] w' show ?thesis by auto
qed

lemma preprocess_and_save_Some:
  assumes "preprocess_and_save L file w = (w', Some (p, cols, df))"
  shows "stage L df w = (w', Inr p) \<and> cols = columns df \<and>
         (\<exists>df0. (read_csv L (content file) = Inr df0 \<or> read_excel L (content file) = Inr df0)
            \<and> df = normalize_table L df0)"
  using assms
  by (auto simp: preprocess_and_save_def process_frame_def Let_def
      split: if_splits sum.splits prod.splits)

lemma mkstemp_inner_files:
  "mkstemp_inner L k w = (w', r) \<Longrightarrow> files w \<subseteq>\<^sub>m files w'"
proof (induction k arbitrary: w)
  case 0
  then show ?case by simp
next
  case (Suc k)
  show ?case
  proof (cases "files w (candidate L (drawn w)) = None")
    case True
    with Suc.prems show ?thesis by (auto simp: Let_def map_le_def)
  next
    case False
    with Suc.prems have "mkstemp_inner L k (w\<lparr>drawn := Suc (drawn w)\<rparr>) = (w', r)"
      by (simp add: Let_def)
    from Suc.IH[OF this] show ?thesis by simp
  qed
qed

lemma stage_files:
  assumes "stage L df w = (w', r)"
  shows "files w \<subseteq>\<^sub>m files w'"
proof (cases r)
  case (Inl e)
  with assms obtain w1 where "mkstemp_inner L TMP_MAX w = (w1, None)" and "w' = w1"
    by (auto simp: stage_def named_temporary_file_def split: prod.splits option.splits sum.splits)
  then show ?thesis using mkstemp_inner_files by blast
next
  case (Inr p)
  with assms have "files w p = None" and "files w' = (files w)(p \<mapsto> to_csv L df)"
    using stage_Inr by blast+
  then show ?thesis by (auto simp: map_le_def)
qed

lemma preprocess_and_save_files:
  assumes "preprocess_and_save L file w = (w', r)"
  shows "files w \<subseteq>\<^sub>m files w'"
proof -
  have pf: "files w \<subseteq>\<^sub>m files v" if "process_frame L x w = (v, y)" for x v y
  proof (cases x)
    case (Inl e)
    with that show ?thesis by (auto simp: process_frame_def st_error_def)
  next
    case (Inr df0)
    obtain w1 r1 where s: "stage L (normalize_table L df0) w = (w1, r1)"
      by (cases "stage L (normalize_table L df0) w")
    from stage_files[OF s] have "files w \<subseteq>\<^sub>m files w1" .
    moreover have "files v = files w1"
      using that Inr s by (auto simp: process_frame_def Let_def st_error_def split: sum.splits)
    ultimately show ?thesis by simp
  qed
  show ?thesis
    using assms pf
    by (auto simp: preprocess_and_save_def st_error_def split: if_splits)
qed

lemma session_files:
  "session L uploads w = (w', rs) \<Longrightarrow> files w \<subseteq>\<^sub>m files w'"
proof (induction uploads arbitrary: w w' rs)
  case Nil
  then show ?case by simp
next
  case (Cons up rest)
  obtain w1 r where c: "preprocess_and_save L up w = (w1, r)"
    by (cases "preprocess_and_save L up w")
  obtain w2 rs' where s: "session L rest w1 = (w2, rs')"
    by (cases "session L rest w1")
  from Cons.prems c s have "w' = w2" by simp
  with preprocess_and_save_files[OF c] Cons.IH[OF s] show ?case
    by (auto intro: map_le_trans)
qed

text \<open>
  Two calls that both return an artifact, the second in any state that still has the
  files of the state after the first: the paths differ, and the second call does not
  touch the file of the first.
\<close>

lemma later_call_gets_other_path:
  assumes "preprocess_and_save L file1 w = (w1, Some (p1, cols1, df1))"
    and "dom (files w1) \<subseteq> dom (files w2)"
    and "preprocess_and_save L file2 w2 = (w3, Some (p2, cols2, df2))"
  shows "p1 \<noteq> p2 \<and> files w p1 = None \<and> files w1 p1 = Some (to_csv L df1)
         \<and> files w3 p1 = files w2 p1"
proof -
  from preprocess_and_save_Some[OF assms(1)] have s1: "stage L df1 w = (w1, Inr p1)" by simp
  from preprocess_and_save_Some[OF assms(3)] have s2: "stage L df2 w2 = (w3, Inr p2)" by simp
  from stage_Inr[OF s1] have a: "files w p1 = None" "files w1 p1 = Some (to_csv L df1)" by auto
  from stage_Inr[OF s2] have b: "files w2 p2 = None" "files w3 = (files w2)(p2 \<mapsto> to_csv L df2)"
    by auto
  from a(2) assms(2) have "p1 \<in> dom (files w2)" by auto
  with b(1) have "p1 \<noteq> p2" by auto
  with a b show ?thesis by simp
qed

text \<open>
  Claim C7. In a process lifetime, whatever the uploads and the state it starts in, the
  paths of the artifacts returned are pairwise distinct; each path named no file when the
  lifetime began, and at its end each still holds the serialization of the frame that was
  returned with it, so no later call has overwritten or reused it.
\<close>

theorem session_paths_are_distinct:
  "session L uploads w = (w', rs) \<Longrightarrow>
     distinct (map fst (artifacts rs))
   \<and> (\<forall>(p, cols, df) \<in> set (artifacts rs). files w p = None \<and> files w' p = Some (to_csv L df))"
proof (induction uploads arbitrary: w w' rs)
  case Nil
  then show ?case by simp
next
  case (Cons up rest)
  obtain w1 r where c: "preprocess_and_save L up w = (w1, r)"
    by (cases "preprocess_and_save L up w")
  obtain w2 rs' where s: "session L rest w1 = (w2, rs')"
    by (cases "session L rest w1")
  from Cons.prems c s have w': "w' = w2" and rs: "rs = r # rs'" by simp_all
  note IH = Cons.IH[OF s]
  have le1: "files w \<subseteq>\<^sub>m files w1" by (rule preprocess_and_save_files[OF c])
  have le2: "files w1 \<subseteq>\<^sub>m files w2" by (rule session_files[OF s])
  have old: "files w p = None" if "files w1 p = None" for p
    using that le1 by (metis domIff map_le_def)
  show ?case
  proof (cases r)
    case None
    with IH rs w' old show ?thesis by fastforce
  next
    case (Some a)
    obtain p cols df where a: "a = (p, cols, df)" by (cases a)
    from c Some a have st: "stage L df w = (w1, Inr p)"
      using preprocess_and_save_Some by blast
    from stage_Inr[OF st] have p0: "files w p = None" and p1: "files w1 p = Some (to_csv L df)"
      by auto
    from p1 le2 have p2: "files w2 p = Some (to_csv L df)"
      by (metis domI map_le_def)
    have fresh: "p \<notin> set (map fst (artifacts rs'))"
    proof
      assume "p \<in> set (map fst (artifacts rs'))"
      then obtain cols' df' where "(p, cols', df') \<in> set (artifacts rs')" by auto
      with IH have "files w1 p = None" by blast
      with p1 show False by simp
    qed
    from IH have rest: "\<forall>(q, cols', df') \<in> set (artifacts rs').
        files w q = None \<and> files w2 q = Some (to_csv L df')"
      using old by fastforce
    show ?thesis
      using IH fresh rest p0 p2 by (simp add: rs w' Some a)
  qed
qed

theorem session_paths_are_distinct_witness:
  "session demo
     [\<lparr>name = ''t.csv'', content = ''n'' @ [newline] @ ''1'' @ [newline]\<rparr>,
      \<lparr>name = ''t.txt'', content = ''n'' @ [newline] @ ''1'' @ [newline]\<rparr>,
      \<lparr>name = ''u.csv'', content = ''m'' @ [newline] @ ''2'' @ [newline]\<rparr>]
     world0 =
     (\<lparr>files = [''/tmp/tmp0.csv'' \<mapsto> [dquote] @ ''n'' @ [dquote, newline, dquote] @ ''1''
          @ [dquote, newline],
        ''/tmp/tmp1.csv'' \<mapsto> [dquote] @ ''m'' @ [dquote, newline, dquote] @ ''2''
          @ [dquote, newline]],
       drawn = 2,
       ui_errors = [''Unsupported file format. Please upload a CSV or Excel file.'']\<rparr>,
      [Some (''/tmp/tmp0.csv'', [''n''], [(''n'', Numeric [Some 1])]),
       None,
       Some (''/tmp/tmp1.csv'', [''m''], [(''m'', Numeric [Some 2])])])
   \<and> distinct [''/tmp/tmp0.csv'', ''/tmp/tmp1.csv'']"
proof -
  let ?t = "[dquote] @ ''n'' @ [dquote, newline, dquote] @ ''1'' @ [dquote, newline]"
  let ?u = "[dquote] @ ''m'' @ [dquote, newline, dquote] @ ''2'' @ [dquote, newline]"
  let ?w = "\<lparr>files = [''/tmp/tmp0.csv'' \<mapsto> ?t, ''/tmp/tmp1.csv'' \<mapsto> ?u], drawn = 2,
       ui_errors = [''Unsupported file format. Please upload a CSV or Excel file.'']\<rparr>"
  let ?rs = "[Some (''/tmp/tmp0.csv'', [''n''], [(''n'', Numeric [Some 1])]), None,
       Some (''/tmp/tmp1.csv'', [''m''], [(''m'', Numeric [Some 2])])]
       :: (nat, nat) staged option list"
  have e: "session demo
     [\<lparr>name = ''t.csv'', content = ''n'' @ [newline] @ ''1'' @ [newline]\<rparr>,
      \<lparr>name = ''t.txt'', content = ''n'' @ [newline] @ ''1'' @ [newline]\<rparr>,
      \<lparr>name = ''u.csv'', content = ''m'' @ [newline] @ ''2'' @ [newline]\<rparr>]
     world0 = (?w, ?rs)"
    by (simp add: pipeline_defs frame_defs string_defs demo_defs mkstemp_inner_unfold
        str_nat.simps)
  from session_paths_are_distinct [OF e] have "distinct (map fst (artifacts ?rs))"
    by (rule conjunct1)
  then have "distinct [''/tmp/tmp0.csv'', ''/tmp/tmp1.csv'']"
    by simp
  with e show ?thesis
    by blast
qed

subsection \<open>Null cells of string columns\<close>

text \<open>
  After the sanitizing loop an object column has no null cell left: \<^verbatim>\<open>astype(str)\<close> has
  turned each into the string \<^verbatim>\<open>nan\<close>.
\<close>

lemma sanitized_series_has_no_null:
  "dtype_is_object s \<Longrightarrow> isna (sanitize_series L s) = replicate (series_len s) False"
  by (cases s) (auto simp: sanitize_series_def map_replicate_const[symmetric] split: option.splits)

text \<open>
  Claim C5 does not hold of the code. The upload \<^verbatim>\<open>people.csv\<close> has the column
  \<^verbatim>\<open>name\<close> with the cells \<^verbatim>\<open>Ann\<close> and \<^verbatim>\<open>NA\<close>. The reader makes the second cell null;
  the returned frame and the artifact hold the string \<^verbatim>\<open>nan\<close> in its place.
\<close>

theorem missing_cell_becomes_nan_string:
  "preprocess_and_save demo
     \<lparr>name = ''people.csv'',
      content = ''name'' @ [newline] @ ''Ann'' @ [newline] @ ''NA'' @ [newline]\<rparr>
     world0 =
   (\<lparr>files = [''/tmp/tmp0.csv'' \<mapsto>
        [dquote] @ ''name'' @ [dquote, newline, dquote] @ ''Ann'' @ [dquote, newline, dquote]
          @ ''nan'' @ [dquote, newline]],
     drawn = 1, ui_errors = []\<rparr>,
    Some (''/tmp/tmp0.csv'', [''name''], [(''name'', Object [Some ''Ann'', Some ''nan''])]))"
  by (simp add: pipeline_defs frame_defs string_defs demo_defs mkstemp_inner_unfold str_nat.simps)

subsection \<open>Reading the artifact back\<close>

lemma csv_read_quoted_body:
  "csv_read InQuoted fld row rows (doublequote s @ dquote # rest) =
   csv_read QuoteInQuoted (fld @ s) row rows rest"
  by (induction s arbitrary: fld) (simp_all add: doublequote_def)

lemma csv_read_quoted:
  "csv_read StartField fld row rows (quoted s @ rest) = csv_read QuoteInQuoted s row rows rest"
  using csv_read_quoted_body[of "[]" row rows s rest] by (simp add: quoted_def)

lemma csv_read_fields:
  "fs \<noteq> [] \<Longrightarrow>
   csv_read StartField fld row rows (comma_join (map quoted fs) @ newline # rest) =
   csv_read StartField [] [] (rows @ [row @ fs]) rest"
proof (induction fs arbitrary: fld row rule: comma_join.induct)
  case 1
  then show ?case by simp
next
  case (2 f)
  then show ?case
    by (simp add: csv_read_quoted) (simp add: dquote_def newline_def)
next
  case (3 f g fs)
  have "csv_read StartField fld row rows
          (comma_join (map quoted (f # g # fs)) @ newline # rest) =
        csv_read QuoteInQuoted f row rows
          (CHR '','' # comma_join (map quoted (g # fs)) @ newline # rest)"
    using csv_read_quoted[of fld row rows f] by simp
  also have "\<dots> = csv_read StartField [] (row @ [f]) rows
          (comma_join (map quoted (g # fs)) @ newline # rest)"
    by (simp add: dquote_def)
  also have "\<dots> = csv_read StartField [] [] (rows @ [(row @ [f]) @ (g # fs)]) rest"
    by (rule "3.IH") simp
  finally show ?case by simp
qed

lemma csv_read_writerow:
  "csv_read StartField [] [] rows (writerow fs @ rest) =
   csv_read StartField [] [] (rows @ [fs]) rest"
proof (cases "fs = []")
  case True
  then show ?thesis by (simp add: writerow_def dquote_def newline_def)
next
  case False
  then show ?thesis
    using csv_read_fields[of fs "[]" "[]" rows rest] by (simp add: writerow_def)
qed

lemma csv_read_rows:
  "csv_read StartField [] [] rows (concat (map writerow rs)) = rows @ rs"
proof (induction rs arbitrary: rows)
  case Nil
  then show ?case by simp
next
  case (Cons r rs)
  then show ?case by (simp add: csv_read_writerow)
qed

lemma csv_reader_writerows: "csv_reader (concat (map writerow rs)) = rs"
  using csv_read_rows[of "[]" rs] by (simp add: csv_reader_def)

lemma series_len_sanitize_series: "series_len (sanitize_series L s) = series_len s"
  by (cases s) (simp_all add: sanitize_series_def)

lemma series_len_coerce_series: "series_len (coerce_series L col s) = series_len s"
  by (cases s) (simp_all add: coerce_series_def)

lemma lens_update_col:
  "(\<And>s. series_len (f s) = series_len s) \<Longrightarrow>
   map (\<lambda>(n, s). series_len s) (update_col col f df) = map (\<lambda>(n, s). series_len s) df"
  by (induction df) (auto simp: update_col_def)

lemma lens_fold_update:
  "(\<And>col s. series_len (f col s) = series_len s) \<Longrightarrow>
   map (\<lambda>(n, s). series_len s) (fold (\<lambda>col d. update_col col (f col) d) ns df) =
   map (\<lambda>(n, s). series_len s) df"
  by (induction ns arbitrary: df) (simp_all add: lens_update_col)

lemma lens_normalize_table:
  "map (\<lambda>(n, s). series_len s) (normalize_table L df) = map (\<lambda>(n, s). series_len s) df"
  by (simp add: normalize_table_def coerce_columns_def sanitize_columns_def lens_fold_update
      series_len_sanitize_series series_len_coerce_series)

lemma length_series_text: "length (series_text L s) = series_len s"
  by (cases s) simp_all

lemma transpose_rectangular:
  assumes "xss \<noteq> []" and "\<forall>xs \<in> set xss. length xs = m"
  shows "length (transpose xss) = m"
    and "j < m \<Longrightarrow> transpose xss ! j = map (\<lambda>xs. xs ! j) xss"
proof -
  have "foldr (\<lambda>xs. max (length xs)) xss 0 = m"
    using assms by (induction xss rule: list_nonempty_induct) simp_all
  then show len: "length (transpose xss) = m"
    by (simp add: length_transpose)
  assume "j < m"
  moreover have "filter (\<lambda>ys. j < length ys) xss = xss" if "j < m"
    using that assms(2) by (simp add: filter_id_conv)
  ultimately show "transpose xss ! j = map (\<lambda>xs. xs ! j) xss"
    using len by (simp add: nth_transpose)
qed

lemma records_rectangular:
  assumes "df \<noteq> []" and "\<forall>(n, s) \<in> set df. series_len s = m"
  shows "length (records L df) = m"
    and "j < m \<Longrightarrow> records L df ! j = map (\<lambda>(n, s). series_text L s ! j) df"
proof -
  let ?xss = "map (\<lambda>(n, s). series_text L s) df"
  have ne: "?xss \<noteq> []" using assms(1) by simp
  have all: "\<forall>xs \<in> set ?xss. length xs = m"
    using assms(2) by (auto simp: length_series_text)
  show "length (records L df) = m"
    unfolding records_def by (rule transpose_rectangular(1)[OF ne all])
  assume "j < m"
  then have "transpose ?xss ! j = map (\<lambda>xs. xs ! j) ?xss"
    by (rule transpose_rectangular(2)[OF ne all])
  then show "records L df ! j = map (\<lambda>(n, s). series_text L s ! j) df"
    by (simp add: records_def case_prod_unfold comp_def)
qed

lemma rectangular_normalize_table:
  assumes "\<forall>(n, s) \<in> set df. series_len s = m"
  shows "\<forall>(n, s) \<in> set (normalize_table L df). series_len s = m"
proof -
  have "\<forall>k \<in> set (map (\<lambda>(n, s). series_len s) df). k = m"
    using assms by auto
  then have "\<forall>k \<in> set (map (\<lambda>(n, s). series_len s) (normalize_table L df)). k = m"
    by (simp only: lens_normalize_table)
  then show ?thesis by auto
qed

text \<open>
  Claim C9. Whenever the function returns an artifact, the returned column names are
  those of the table as read, the frame is the normalized table, and the file under the
  returned path is the text made of one line per row, the header row of the column names
  first, each line the comma-separated fields, each field wrapped in double quotes with
  its quotes doubled. The standard reader gets the column names and the records back from
  it. When the table as read has columns that all have \<open>m\<close> cells, there are \<open>m\<close>
  records, and field \<open>k\<close> of record \<open>j\<close> is cell \<open>j\<close> of column \<open>k\<close>.
\<close>

theorem staged_artifact_format:
  assumes "preprocess_and_save L file w = (w', Some (temp_path, cols, df))"
  shows "\<exists>df0 text.
           (read_csv L (content file) = Inr df0 \<or> read_excel L (content file) = Inr df0)
         \<and> df = normalize_table L df0 \<and> cols = columns df0
         \<and> files w' temp_path = Some text
         \<and> text = concat (map (\<lambda>r. comma_join (map quoted r) @ [newline])
                     (columns df0 # records L df))
         \<and> csv_reader text = columns df0 # records L df
         \<and> (\<forall>m. df0 \<noteq> [] \<and> (\<forall>(n, s) \<in> set df0. series_len s = m) \<longrightarrow>
               length (records L df) = m
             \<and> (\<forall>j < m. records L df ! j = map (\<lambda>(n, s). series_text L s ! j) df))"
proof -
  from preprocess_and_save_Some[OF assms] obtain df0 where
    st: "stage L df w = (w', Inr temp_path)" and cols: "cols = columns df" and
    rd: "read_csv L (content file) = Inr df0 \<or> read_excel L (content file) = Inr df0" and
    df: "df = normalize_table L df0"
    by blast
  have c: "columns df = columns df0"
    by (simp add: df columns_normalize_table)
  let ?text = "to_csv L df"
  have f: "files w' temp_path = Some ?text"
    using stage_Inr[OF st] by simp
  have t: "?text = concat (map (\<lambda>r. comma_join (map quoted r) @ [newline])
                     (columns df0 # records L df))"
    by (simp add: to_csv_def c writerow_def[abs_def])
  have r: "csv_reader ?text = columns df0 # records L df"
    unfolding to_csv_def c by (rule csv_reader_writerows)
  have m: "length (records L df) = m
             \<and> (\<forall>j < m. records L df ! j = map (\<lambda>(n, s). series_text L s ! j) df)"
    if "df0 \<noteq> []" and "\<forall>(n, s) \<in> set df0. series_len s = m" for m
  proof -
    have ne: "df \<noteq> []"
      using that(1) c by (auto simp: columns_def)
    have all: "\<forall>(n, s) \<in> set df. series_len s = m"
      unfolding df by (rule rectangular_normalize_table[OF that(2)])
    show ?thesis
      using records_rectangular[OF ne all] by simp
  qed
  show ?thesis
    using rd df cols c f t r m by blast
qed

theorem staged_artifact_format_witness:
  "preprocess_and_save demo
     \<lparr>name = ''notes.csv'',
      content = ''id,note'' @ [newline] @ ''1,'' @ [dquote] @ ''a,b'' @ [dquote, newline]
        @ ''2,ok'' @ [newline]\<rparr>
     world0 =
     (\<lparr>files = [''/tmp/tmp0.csv'' \<mapsto>
          [dquote] @ ''id'' @ [dquote] @ '','' @ [dquote] @ ''note'' @ [dquote, newline]
          @ [dquote] @ ''1'' @ [dquote] @ '','' @ [dquote] @ ''a,b'' @ [dquote, newline]
          @ [dquote] @ ''2'' @ [dquote] @ '','' @ [dquote] @ ''ok'' @ [dquote, newline]],
       drawn = 1, ui_errors = []\<rparr>,
      Some (''/tmp/tmp0.csv'', [''id'', ''note''],
        [(''id'', Numeric [Some 1, Some 2]), (''note'', Object [Some ''a,b'', Some ''ok''])]))
   \<and> csv_reader
        ([dquote] @ ''id'' @ [dquote] @ '','' @ [dquote] @ ''note'' @ [dquote, newline]
          @ [dquote] @ ''1'' @ [dquote] @ '','' @ [dquote] @ ''a,b'' @ [dquote, newline]
          @ [dquote] @ ''2'' @ [dquote] @ '','' @ [dquote] @ ''ok'' @ [dquote, newline]) =
       [[''id'', ''note''], [''1'', ''a,b''], [''2'', ''ok'']]"
proof -
  let ?file = "\<lparr>name = ''notes.csv'',
      content = ''id,note'' @ [newline] @ ''1,'' @ [dquote] @ ''a,b'' @ [dquote, newline]
        @ ''2,ok'' @ [newline]\<rparr>"
  let ?text = "[dquote] @ ''id'' @ [dquote] @ '','' @ [dquote] @ ''note'' @ [dquote, newline]
          @ [dquote] @ ''1'' @ [dquote] @ '','' @ [dquote] @ ''a,b'' @ [dquote, newline]
          @ [dquote] @ ''2'' @ [dquote] @ '','' @ [dquote] @ ''ok'' @ [dquote, newline]"
  let ?df = "[(''id'', Numeric [Some 1, Some 2]), (''note'', Object [Some ''a,b'', Some ''ok''])]
      :: (nat, nat) dataframe"
  let ?w = "\<lparr>files = [''/tmp/tmp0.csv'' \<mapsto> ?text], drawn = 1, ui_errors = []\<rparr>"
  have e: "preprocess_and_save demo ?file world0 =
      (?w, Some (''/tmp/tmp0.csv'', [''id'', ''note''], ?df))"
    by (simp add: pipeline_defs frame_defs string_defs demo_defs mkstemp_inner_unfold
        str_nat.simps)
  from staged_artifact_format [OF e]
  have "csv_reader ?text = [''id'', ''note''] # records demo ?df"
    by (elim exE conjE) simp
  then have "csv_reader ?text = [[''id'', ''note''], [''1'', ''a,b''], [''2'', ''ok'']]"
    by (simp add: records_def demo_def str_nat.simps)
  with e show ?thesis
    by blast
qed

subsection \<open>Quotes in text cells\<close>

text \<open>
  A law of \<open>sanitize\<close> and the reader alone: a string with its quotes doubled,
  wrapped once in quotes, reads back as the string.
\<close>

lemma sanitize_is_doublequote: "sanitize s = doublequote s"
  by (simp add: sanitize_def doublequote_def)

lemma sanitize_round_trip: "csv_reader (dquote # sanitize s @ [dquote]) = [[s]]"
  using csv_read_quoted[of "[]" "[]" "[]" s "[]"]
  by (simp add: csv_reader_def quoted_def sanitize_is_doublequote)

text \<open>
  Claim C6 does not hold of the artifact. The upload has the one text cell
  \<^verbatim>\<open>say "hi"\<close> (written in the file as a quoted field, as the first line of the statement
  shows). The sanitizing loop doubles the quotes in the frame, and the csv writer doubles
  them again, so the artifact reads back as the cell with doubled quotes, not as the
  original.
\<close>

theorem quoted_cell_is_escaped_twice:
  "csv_reader (''note'' @ [newline, dquote] @ ''say '' @ [dquote, dquote] @ ''hi''
       @ [dquote, dquote, dquote, newline]) =
     [[''note''], [''say '' @ [dquote] @ ''hi'' @ [dquote]]]
   \<and> preprocess_and_save demo
     \<lparr>name = ''notes.csv'',
      content = ''note'' @ [newline, dquote] @ ''say '' @ [dquote, dquote] @ ''hi''
        @ [dquote, dquote, dquote, newline]\<rparr>
     world0 =
     (\<lparr>files = [''/tmp/tmp0.csv'' \<mapsto>
          [dquote] @ ''note'' @ [dquote, newline, dquote] @ ''say ''
          @ [dquote, dquote, dquote, dquote] @ ''hi''
          @ [dquote, dquote, dquote, dquote, dquote, newline]],
       drawn = 1, ui_errors = []\<rparr>,
      Some (''/tmp/tmp0.csv'', [''note''],
        [(''note'', Object [Some (''say '' @ [dquote, dquote] @ ''hi'' @ [dquote, dquote])])]))
   \<and> csv_reader
        ([dquote] @ ''note'' @ [dquote, newline, dquote] @ ''say ''
          @ [dquote, dquote, dquote, dquote] @ ''hi''
          @ [dquote, dquote, dquote, dquote, dquote, newline]) =
       [[''note''], [''say '' @ [dquote, dquote] @ ''hi'' @ [dquote, dquote]]]"
  by (simp add: pipeline_defs frame_defs string_defs demo_defs mkstemp_inner_unfold
      str_nat.simps)

end
